theory Spec2Isabelle
  imports Main
begin

section \<open>Strings\<close>

text \<open>
  A Python \<open>str\<close> is a sequence of Unicode code points, so a string is a list of
  code points (\<open>nat\<close>) and \<open>len\<close> is \<open>length\<close>.  \<open>ascii\<close> reads an ASCII literal.
\<close>

type_synonym pystr = "nat list"

definition ascii :: "string \<Rightarrow> pystr" where
  "ascii s = map of_char s"

text \<open>
  \<open>str.isspace\<close> on one code point, which is also what \<open>\s\<close> matches in a \<open>str\<close>
  pattern and what \<open>str.split()\<close> and \<open>str.strip()\<close> treat as whitespace.
\<close>

definition isspace :: "nat \<Rightarrow> bool" where
  "isspace c \<longleftrightarrow>
     (9 \<le> c \<and> c \<le> 13) \<or> (28 \<le> c \<and> c \<le> 32) \<or> c = 133 \<or> c = 160 \<or> c = 5760 \<or>
     (8192 \<le> c \<and> c \<le> 8202) \<or> c = 8232 \<or> c = 8233 \<or> c = 8239 \<or> c = 8287 \<or>
     c = 12288"

text \<open>\<open>s.strip()\<close>: leading and trailing whitespace removed.\<close>

definition py_strip :: "pystr \<Rightarrow> pystr" where
  "py_strip s = rev (dropWhile isspace (rev (dropWhile isspace s)))"

text \<open>
  \<open>s.split()\<close> with no separator: the maximal runs of non-whitespace, in order; no
  empty token.  \<open>cur\<close> is the token being read.
\<close>

fun split_from :: "pystr \<Rightarrow> pystr \<Rightarrow> pystr list" where
  "split_from cur [] = (if cur = [] then [] else [cur])"
| "split_from cur (c # cs) =
     (if isspace c then (if cur = [] then split_from [] cs else cur # split_from [] cs)
      else split_from (cur @ [c]) cs)"

definition py_split :: "pystr \<Rightarrow> pystr list" where
  "py_split s = split_from [] s"

text \<open>
  \<open>s.split(sep)\<close> for a one-character separator: cut at every occurrence; the result
  always has at least one element (\<open>"".split(" ") == [""]\<close>).
\<close>

fun split_on :: "nat \<Rightarrow> pystr \<Rightarrow> pystr list" where
  "split_on sep [] = [[]]"
| "split_on sep (c # cs) =
     (if c = sep then [] # split_on sep cs
      else (case split_on sep cs of
              [] \<Rightarrow> [[c]]
            | w # ws \<Rightarrow> (c # w) # ws))"

text \<open>\<open>sep.join(ws)\<close>.\<close>

fun py_join :: "pystr \<Rightarrow> pystr list \<Rightarrow> pystr" where
  "py_join sep [] = []"
| "py_join sep [w] = w"
| "py_join sep (w # v # ws) = w @ sep @ py_join sep (v # ws)"

section \<open>Process environment\<close>

text \<open>
  The module reads its configuration once at import (\<open>os.getenv\<close>); the Unicode
  tables belong to the Python runtime.  Both are parameters of the model:
  \<open>ADMIN_ID\<close> is \<open>None\<close> unless the variable is a digit string,
  \<open>DEFAULT_GROUP_LIMIT\<close> is \<open>int(os.getenv("DEFAULT_GROUP_LIMIT", "10"))\<close>,
  \<open>str_isdigit\<close> is \<open>str.isdigit\<close> on one code point and \<open>re_digit\<close> is what \<open>\d\<close>
  matches.
\<close>

record env =
  ADMIN_ID :: "int option"
  DIRECTOR_USERNAME :: "pystr option"
  DEFAULT_GROUP_LIMIT :: int
  str_isdigit :: "nat \<Rightarrow> bool"
  re_digit :: "nat \<Rightarrow> bool"

text \<open>\<open>AGE_GROUPS = ("9-11 let", "12-14 let")\<close>, written in Cyrillic with an en dash.\<close>

definition AGE_GROUPS :: "pystr list" where
  "AGE_GROUPS =
     [[57, 8211, 49, 49, 32, 1083, 1077, 1090],
      [49, 50, 8211, 49, 52, 32, 1083, 1077, 1090]]"

section \<open>The SQLite database\<close>

datatype error = OperationalError | IntegrityError | KeyError | AttributeError

text \<open>One row of table \<open>enrollments\<close>; \<open>rowid\<close> is the column \<open>id\<close>.\<close>

record enrollment =
  rowid :: int
  child_full :: pystr
  age_group :: pystr
  phone :: "pystr option"
  tg_user_id :: int
  tg_username :: "pystr option"
  created_at :: pystr

text \<open>
  The database file: a table is \<open>None\<close> until it is created.  \<open>group_limits\<close> holds
  its rows \<open>(age_group, limit_value)\<close> in insertion order; \<open>sqlite_sequence\<close> is the
  largest \<open>id\<close> that \<open>AUTOINCREMENT\<close> has handed out (0 before the first insert).
\<close>

record db =
  enrollments :: "enrollment list option"
  sqlite_sequence :: int
  group_limits :: "(pystr \<times> int) list option"
  idx_enrollments_age :: bool

text \<open>\<open>CREATE TABLE IF NOT EXISTS enrollments (...)\<close>\<close>

definition create_enrollments :: "db \<Rightarrow> db" where
  "create_enrollments d =
     (case enrollments d of
        None \<Rightarrow> d\<lparr>enrollments := Some []\<rparr>
      | Some _ \<Rightarrow> d)"

text \<open>\<open>CREATE TABLE IF NOT EXISTS group_limits (...)\<close>\<close>

definition create_group_limits :: "db \<Rightarrow> db" where
  "create_group_limits d =
     (case group_limits d of
        None \<Rightarrow> d\<lparr>group_limits := Some []\<rparr>
      | Some _ \<Rightarrow> d)"

text \<open>\<open>CREATE INDEX IF NOT EXISTS idx_enrollments_age ON enrollments(age_group)\<close>\<close>

definition create_index :: "db \<Rightarrow> error + db" where
  "create_index d =
     (case enrollments d of
        None \<Rightarrow> Inl OperationalError
      | Some _ \<Rightarrow> Inr (if idx_enrollments_age d then d else d\<lparr>idx_enrollments_age := True\<rparr>))"

text \<open>\<open>SELECT 1 FROM group_limits WHERE age_group=?\<close>, then \<open>fetchone()\<close>.\<close>

definition select_one_limit :: "db \<Rightarrow> pystr \<Rightarrow> error + unit option" where
  "select_one_limit d ag =
     (case group_limits d of
        None \<Rightarrow> Inl OperationalError
      | Some ls \<Rightarrow> Inr (if ag \<in> set (map fst ls) then Some () else None))"

text \<open>
  \<open>INSERT INTO group_limits(age_group, limit_value) VALUES(?, ?)\<close>; \<open>age_group\<close> is
  the primary key.
\<close>

definition insert_limit :: "db \<Rightarrow> pystr \<Rightarrow> int \<Rightarrow> error + db" where
  "insert_limit d ag v =
     (case group_limits d of
        None \<Rightarrow> Inl OperationalError
      | Some ls \<Rightarrow>
          if ag \<in> set (map fst ls) then Inl IntegrityError
          else Inr (d\<lparr>group_limits := Some (ls @ [(ag, v)])\<rparr>))"

text \<open>The loop \<open>for ag in AGE_GROUPS\<close> of \<open>init_db\<close>.\<close>

fun seed_limits :: "env \<Rightarrow> pystr list \<Rightarrow> db \<Rightarrow> error + db" where
  "seed_limits e [] d = Inr d"
| "seed_limits e (ag # ags) d =
     (case select_one_limit d ag of
        Inl x \<Rightarrow> Inl x
      | Inr (Some _) \<Rightarrow> seed_limits e ags d
      | Inr None \<Rightarrow>
          (case insert_limit d ag (DEFAULT_GROUP_LIMIT e) of
             Inl x \<Rightarrow> Inl x
           | Inr d' \<Rightarrow> seed_limits e ags d'))"

definition init_db :: "env \<Rightarrow> db \<Rightarrow> error + db" where
  "init_db e d =
     (case create_index (create_group_limits (create_enrollments d)) of
        Inl x \<Rightarrow> Inl x
      | Inr d' \<Rightarrow> seed_limits e AGE_GROUPS d')"

text \<open>\<open>init_db\<close> called \<open>n\<close> times in sequence.\<close>

fun init_db_times :: "env \<Rightarrow> nat \<Rightarrow> db \<Rightarrow> error + db" where
  "init_db_times e 0 d = Inr d"
| "init_db_times e (Suc n) d =
     (case init_db e d of
        Inl x \<Rightarrow> Inl x
      | Inr d' \<Rightarrow> init_db_times e n d')"

text \<open>\<open>SELECT COUNT(*) FROM enrollments WHERE age_group=?\<close>\<close>

definition count_in_group :: "db \<Rightarrow> pystr \<Rightarrow> error + int" where
  "count_in_group d ag =
     (case enrollments d of
        None \<Rightarrow> Inl OperationalError
      | Some rows \<Rightarrow> Inr (int (length (filter (\<lambda>r. age_group r = ag) rows))))"

text \<open>
  \<open>SELECT limit_value FROM group_limits WHERE age_group=?\<close>, the first row if any,
  else the default.
\<close>

definition get_group_limit :: "env \<Rightarrow> db \<Rightarrow> pystr \<Rightarrow> error + int" where
  "get_group_limit e d ag =
     (case group_limits d of
        None \<Rightarrow> Inl OperationalError
      | Some ls \<Rightarrow>
          (case map_of ls ag of
             Some v \<Rightarrow> Inr v
           | None \<Rightarrow> Inr (DEFAULT_GROUP_LIMIT e)))"

definition get_remaining :: "env \<Rightarrow> db \<Rightarrow> pystr \<Rightarrow> error + int" where
  "get_remaining e d ag =
     (case get_group_limit e d ag of
        Inl x \<Rightarrow> Inl x
      | Inr l \<Rightarrow>
          (case count_in_group d ag of
             Inl x \<Rightarrow> Inl x
           | Inr c \<Rightarrow> Inr (max (l - c) 0)))"

text \<open>
  The \<open>id\<close> SQLite gives a new row of an \<open>AUTOINCREMENT\<close> table: one more than the
  largest id the table has ever held.
\<close>

definition next_rowid :: "db \<Rightarrow> enrollment list \<Rightarrow> int" where
  "next_rowid d rows = fold max (map rowid rows) (sqlite_sequence d) + 1"

text \<open>
  \<open>try_enroll\<close>.  \<open>now\<close> is the string \<open>datetime.utcnow().isoformat(timespec="seconds")\<close>
  read by this call.  \<open>BEGIN IMMEDIATE\<close> takes the write lock of the file; a single
  call running alone is what is modelled here.  An exception leaves the \<open>with\<close> block by
  rollback, so \<open>Inl\<close> carries no database: it is the one passed in.
\<close>

definition try_enroll ::
  "env \<Rightarrow> db \<Rightarrow> pystr \<Rightarrow> pystr \<Rightarrow> pystr option \<Rightarrow> int \<Rightarrow> pystr option \<Rightarrow> pystr
     \<Rightarrow> error + (bool \<times> db)" where
  "try_enroll e d child ag ph user_id username now =
     (case count_in_group d ag of
        Inl x \<Rightarrow> Inl x
      | Inr current \<Rightarrow>
          (case get_group_limit e d ag of
             Inl x \<Rightarrow> Inl x
           | Inr limit_v \<Rightarrow>
               if current \<ge> limit_v then Inr (False, d)
               else
                 (case enrollments d of
                    None \<Rightarrow> Inl OperationalError
                  | Some rows \<Rightarrow>
                      let i = next_rowid d rows;
                          row = \<lparr>rowid = i, child_full = child, age_group = ag, phone = ph,
                                 tg_user_id = user_id, tg_username = username,
                                 created_at = now\<rparr>
                      in Inr (True, d\<lparr>enrollments := Some (rows @ [row]),
                                       sqlite_sequence := i\<rparr>))))"

text \<open>
  A sequence of \<open>try_enroll\<close> calls against one age group, one after the other; each
  call brings its own arguments.  The result lists what each call returned.
\<close>

record enroll_call =
  call_child :: pystr
  call_phone :: "pystr option"
  call_user_id :: int
  call_username :: "pystr option"
  call_now :: pystr

fun enroll_all :: "env \<Rightarrow> pystr \<Rightarrow> db \<Rightarrow> enroll_call list \<Rightarrow> error + (bool list \<times> db)" where
  "enroll_all e ag d [] = Inr ([], d)"
| "enroll_all e ag d (c # cs) =
     (case try_enroll e d (call_child c) ag (call_phone c) (call_user_id c)
             (call_username c) (call_now c) of
        Inl x \<Rightarrow> Inl x
      | Inr (ok, d') \<Rightarrow>
          (case enroll_all e ag d' cs of
             Inl x \<Rightarrow> Inl x
           | Inr (oks, d'') \<Rightarrow> Inr (ok # oks, d'')))"

section \<open>Messages, sessions and what a handler does\<close>

text \<open>
  An incoming message: a text, a shared contact, or something else (a photo, a
  sticker), with its sender.  \<open>m.text\<close> and \<open>m.contact\<close> are \<open>None\<close> unless the message
  is of that kind.
\<close>

record contact =
  phone_number :: pystr
  user_id :: "int option"

datatype content = Text pystr | Contact contact | Other_content

record message =
  content :: content
  from_user_id :: int
  from_username :: "pystr option"

definition text_of :: "message \<Rightarrow> pystr option" where
  "text_of m = (case content m of Text t \<Rightarrow> Some t | _ \<Rightarrow> None)"

definition contact_of :: "message \<Rightarrow> contact option" where
  "contact_of m = (case content m of Contact c \<Rightarrow> Some c | _ \<Rightarrow> None)"

text \<open>
  \<open>class Enroll(StatesGroup)\<close>.  A session is the FSM context of one user: its
  state (\<open>None\<close> when no dialogue is active) and its data dictionary, whose three keys
  are \<open>None\<close> while absent.  \<open>state.clear()\<close> resets both.
\<close>

datatype enroll_state = Name_full | Age_group | Phone | Confirm

record fsm_data =
  data_phone :: "pystr option"
  data_child_full :: "pystr option"
  data_age_group :: "pystr option"

record session =
  state :: "enroll_state option"
  data :: fsm_data

definition no_data :: fsm_data where
  "no_data = \<lparr>data_phone = None, data_child_full = None, data_age_group = None\<rparr>"

definition clear :: "session \<Rightarrow> session" where
  "clear s = \<lparr>state = None, data = no_data\<rparr>"

text \<open>The texts the router's filters compare with.\<close>

definition START_TEXTS :: "pystr list" where
  "START_TEXTS = [ascii ''/start'', ascii ''start'', [1052, 1077, 1085, 1102]]"

definition ENROLL_TEXT :: pystr where
  "ENROLL_TEXT =
     [1047, 1072, 1087, 1080, 1089, 1072, 1090, 1100, 1089, 1103, 32, 1085, 1072, 32,
      1087, 1088, 1086, 1073, 1085, 1086, 1077, 32, 1079, 1072, 1085, 1103, 1090, 1080,
      1077]"

definition CONFIRM_TEXT :: pystr where
  "CONFIRM_TEXT = [9989, 32, 1055, 1086, 1076, 1090, 1074, 1077, 1088, 1076, 1080, 1090, 1100]"

definition EDIT_TEXT :: pystr where
  "EDIT_TEXT = [9999, 65039, 32, 1048, 1079, 1084, 1077, 1085, 1080, 1090, 1100]"

definition QUESTION_TEXT :: pystr where
  "QUESTION_TEXT = [1047, 1072, 1076, 1072, 1090, 1100, 32, 1074, 1086, 1087, 1088, 1086, 1089]"

definition CONTACTS_TEXT :: pystr where
  "CONTACTS_TEXT = [1050, 1086, 1085, 1090, 1072, 1082, 1090, 1099]"

definition BACK_TEXT :: pystr where
  "BACK_TEXT = [11013, 65039, 32, 1042, 32, 1084, 1077, 1085, 1102]"

text \<open>
  What a handler sends.  The wording of the replies is outside the model: each
  reply is named, and carries the values the source formats into it.
\<close>

datatype chat_url = Tme pystr | Tg_user int

datatype button = Button pystr | Request_contact

datatype keyboard =
  Reply_keyboard "button list" | Reply_keyboard_remove | Inline_url chat_url | No_markup

datatype reply =
  Greeting | Ask_contact | Ask_name | Own_contact_please | Phone_too_short
  | Phone_format_hint | Name_two_words | All_full_later | All_full_contact_us
  | Choose_group_schedule "pystr list" | Choose_group_left "(pystr \<times> int) list"
  | Check_data pystr pystr "pystr option" | Enrolled | Start_over | Tap_to_write
  | No_link | Director_contacts | Choose_action

text \<open>
  The trace of one handler call: answers to the user, the message to the
  administrator, a logged warning, the director's contact card, and, last, the
  exception the handler left with, if any.
\<close>

datatype event =
  Answer reply keyboard
  | Send_admin int pystr pystr "pystr option" "pystr option" int pystr
  | Answer_contact
  | Log_warning
  | Raised error

text \<open>
  What the outside world gives one handler call: the two clock readings of
  \<open>confirm\<close> (inside \<open>try_enroll\<close>, and for the notification) and whether the sends
  that the source wraps in \<open>try\<close> raise.
\<close>

record io =
  utcnow_insert :: pystr
  utcnow_notify :: pystr
  send_message_raises :: bool
  answer_contact_raises :: bool

definition main_menu_kb :: keyboard where
  "main_menu_kb = Reply_keyboard [Button ENROLL_TEXT, Button QUESTION_TEXT, Button CONTACTS_TEXT]"

definition phone_kb :: keyboard where
  "phone_kb = Reply_keyboard [Request_contact]"

definition confirm_kb :: keyboard where
  "confirm_kb = Reply_keyboard [Button CONFIRM_TEXT, Button EDIT_TEXT]"

definition build_chat_url :: "env \<Rightarrow> chat_url option" where
  "build_chat_url e =
     (case DIRECTOR_USERNAME e of
        Some (c # cs) \<Rightarrow> Some (Tme (dropWhile (\<lambda>x. x = 64) (c # cs)))
      | _ \<Rightarrow>
          (case ADMIN_ID e of
             Some i \<Rightarrow> if i \<noteq> 0 then Some (Tg_user i) else None
           | None \<Rightarrow> None))"

text \<open>\<open>{ag: get_remaining(ag) for ag in ags}\<close>, in the order of \<open>ags\<close>.\<close>

fun remaining_of :: "env \<Rightarrow> db \<Rightarrow> pystr list \<Rightarrow> error + (pystr \<times> int) list" where
  "remaining_of e d [] = Inr []"
| "remaining_of e d (ag # ags) =
     (case get_remaining e d ag of
        Inl x \<Rightarrow> Inl x
      | Inr v \<Rightarrow>
          (case remaining_of e d ags of
             Inl x \<Rightarrow> Inl x
           | Inr vs \<Rightarrow> Inr ((ag, v) # vs)))"

definition age_kb_dynamic :: "env \<Rightarrow> db \<Rightarrow> error + keyboard" where
  "age_kb_dynamic e d =
     (case remaining_of e d AGE_GROUPS of
        Inl x \<Rightarrow> Inl x
      | Inr left \<Rightarrow>
          let options = map fst (filter (\<lambda>(ag, v). v > 0) left)
          in Inr (Reply_keyboard
                   (if options = [] then [Button BACK_TEXT] else map Button options)))"

section \<open>The handlers\<close>

type_synonym outcome = "session \<times> db \<times> event list"

definition cmd_start :: "message \<Rightarrow> session \<Rightarrow> db \<Rightarrow> outcome" where
  "cmd_start m s d = (clear s, d, [Answer Greeting main_menu_kb])"

definition start_enroll :: "message \<Rightarrow> session \<Rightarrow> db \<Rightarrow> outcome" where
  "start_enroll m s d = ((clear s)\<lparr>state := Some Phone\<rparr>, d, [Answer Ask_contact phone_kb])"

definition set_phone_from_contact :: "message \<Rightarrow> session \<Rightarrow> db \<Rightarrow> outcome" where
  "set_phone_from_contact m s d =
     (case contact_of m of
        None \<Rightarrow> (s, d, [Raised AttributeError])
      | Some c \<Rightarrow>
          if user_id c = None \<or> user_id c = Some (from_user_id m) then
            (s\<lparr>data := (data s)\<lparr>data_phone := Some (phone_number c)\<rparr>,
               state := Some Name_full\<rparr>,
             d, [Answer Ask_name Reply_keyboard_remove])
          else (s, d, [Answer Own_contact_please No_markup]))"

text \<open>
  The filter of \<open>set_phone_manual\<close>: \<open>re.match\<close> of \<open>^[\d\s\+\-\(\)]+$\<close> on the
  text.  Every character the class admits may also stand before \<open>$\<close> (a final newline
  is itself \<open>\s\<close>), so the pattern matches exactly the non-empty texts made of class
  characters: 43, 45, 40 and 41 are \<open>+ - ( )\<close>.
\<close>

definition phone_char :: "env \<Rightarrow> nat \<Rightarrow> bool" where
  "phone_char e c \<longleftrightarrow> re_digit e c \<or> isspace c \<or> c = 43 \<or> c = 45 \<or> c = 40 \<or> c = 41"

definition phone_regexp :: "env \<Rightarrow> message \<Rightarrow> bool" where
  "phone_regexp e m =
     (case text_of m of
        None \<Rightarrow> False
      | Some t \<Rightarrow> t \<noteq> [] \<and> list_all (phone_char e) t)"

definition set_phone_manual :: "env \<Rightarrow> message \<Rightarrow> session \<Rightarrow> db \<Rightarrow> outcome" where
  "set_phone_manual e m s d =
     (case text_of m of
        None \<Rightarrow> (s, d, [Raised AttributeError])
      | Some t \<Rightarrow>
          let phone = py_strip t;
              digits = filter (str_isdigit e) phone
          in if length digits < 10 then (s, d, [Answer Phone_too_short No_markup])
             else (s\<lparr>data := (data s)\<lparr>data_phone := Some phone\<rparr>,
                     state := Some Name_full\<rparr>,
                   d, [Answer Ask_name Reply_keyboard_remove]))"

definition invalid_phone :: "message \<Rightarrow> session \<Rightarrow> db \<Rightarrow> outcome" where
  "invalid_phone m s d = (s, d, [Answer Phone_format_hint No_markup])"

definition set_name_full :: "env \<Rightarrow> message \<Rightarrow> session \<Rightarrow> db \<Rightarrow> outcome" where
  "set_name_full e m s d =
     (case text_of m of
        None \<Rightarrow> (s, d, [Raised AttributeError])
      | Some t \<Rightarrow>
          let parts = split_on 32 (py_join [32] (py_split t))
          in if length parts < 2 then (s, d, [Answer Name_two_words No_markup])
             else
               let first = hd parts;
                   last = py_join [32] (tl parts);
                   s' = s\<lparr>data := (data s)\<lparr>data_child_full := Some (first @ [32] @ last)\<rparr>,
                          state := Some Age_group\<rparr>
               in (case remaining_of e d AGE_GROUPS of
                     Inl x \<Rightarrow> (s', d, [Raised x])
                   | Inr left \<Rightarrow>
                       if list_all (\<lambda>(ag, v). v = 0) left then
                         (s', d, [Answer All_full_later main_menu_kb])
                       else
                         (case age_kb_dynamic e d of
                            Inl x \<Rightarrow> (s', d, [Raised x])
                          | Inr kb \<Rightarrow>
                              (s', d,
                               [Answer (Choose_group_schedule
                                          (map fst (filter (\<lambda>(ag, v). v > 0) left))) kb]))))"

text \<open>
  \<open>set_age\<close>.  Its filter lets in text messages only; \<open>update_data\<close> stores \<open>m.text\<close>.
\<close>

definition set_age :: "message \<Rightarrow> session \<Rightarrow> db \<Rightarrow> outcome" where
  "set_age m s d =
     (let s' = s\<lparr>data := (data s)\<lparr>data_age_group := text_of m\<rparr>, state := Some Confirm\<rparr>
      in case data_child_full (data s') of
           None \<Rightarrow> (s', d, [Raised KeyError])
         | Some child \<Rightarrow>
             (case data_age_group (data s') of
                None \<Rightarrow> (s', d, [Raised KeyError])
              | Some ag \<Rightarrow>
                  (s', d, [Answer (Check_data child ag (data_phone (data s'))) confirm_kb])))"

definition confirm :: "env \<Rightarrow> io \<Rightarrow> message \<Rightarrow> session \<Rightarrow> db \<Rightarrow> outcome" where
  "confirm e w m s d =
     (case data_child_full (data s) of
        None \<Rightarrow> (s, d, [Raised KeyError])
      | Some child \<Rightarrow>
          (case data_age_group (data s) of
             None \<Rightarrow> (s, d, [Raised KeyError])
           | Some ag \<Rightarrow>
               (case try_enroll e d child ag (data_phone (data s)) (from_user_id m)
                       (from_username m) (utcnow_insert w) of
                  Inl x \<Rightarrow> (s, d, [Raised x])
                | Inr (ok, d') \<Rightarrow>
                    if \<not> ok then
                      (case remaining_of e d' AGE_GROUPS of
                         Inl x \<Rightarrow> (s, d', [Raised x])
                       | Inr left \<Rightarrow>
                           if list_all (\<lambda>(ag, v). v = 0) left then
                             (s, d', [Answer All_full_contact_us main_menu_kb])
                           else
                             (case age_kb_dynamic e d' of
                                Inl x \<Rightarrow> (s, d', [Raised x])
                              | Inr kb \<Rightarrow>
                                  (s\<lparr>state := Some Age_group\<rparr>, d',
                                   [Answer (Choose_group_left (filter (\<lambda>(ag, v). v > 0) left))
                                      kb])))
                    else
                      (clear s, d',
                       (case ADMIN_ID e of
                          None \<Rightarrow> []
                        | Some admin \<Rightarrow>
                            if admin = 0 then []
                            else if send_message_raises w then [Log_warning]
                            else [Send_admin admin child ag (data_phone (data s))
                                    (from_username m) (from_user_id m) (utcnow_notify w)])
                       @ [Answer Enrolled main_menu_kb]))))"

definition edit :: "message \<Rightarrow> session \<Rightarrow> db \<Rightarrow> outcome" where
  "edit m s d = ((clear s)\<lparr>state := Some Phone\<rparr>, d, [Answer Start_over phone_kb])"

definition ask_question :: "env \<Rightarrow> message \<Rightarrow> session \<Rightarrow> db \<Rightarrow> outcome" where
  "ask_question e m s d =
     (case build_chat_url e of
        Some url \<Rightarrow> (clear s, d, [Answer Tap_to_write (Inline_url url)])
      | None \<Rightarrow> (clear s, d, [Answer No_link No_markup]))"

definition contacts :: "env \<Rightarrow> io \<Rightarrow> message \<Rightarrow> session \<Rightarrow> db \<Rightarrow> outcome" where
  "contacts e w m s d =
     (clear s, d,
      [if answer_contact_raises w then Log_warning else Answer_contact,
       Answer Director_contacts
         (case build_chat_url e of Some url \<Rightarrow> Inline_url url | None \<Rightarrow> No_markup)])"

definition fallback :: "message \<Rightarrow> session \<Rightarrow> db \<Rightarrow> outcome" where
  "fallback m s d = (s, d, [Answer Choose_action main_menu_kb])"

section \<open>The router\<close>

text \<open>
  The router offers a message to the handlers in the order of their registration
  and calls the first whose filters all hold: a state filter compares with the
  session's state, \<open>F.text == x\<close> and \<open>F.text.in_(xs)\<close> fail on a message without text,
  \<open>F.contact\<close> holds when the message carries a contact.
\<close>

definition text_in :: "message \<Rightarrow> pystr list \<Rightarrow> bool" where
  "text_in m xs = (case text_of m of None \<Rightarrow> False | Some t \<Rightarrow> t \<in> set xs)"

definition dispatch :: "env \<Rightarrow> io \<Rightarrow> message \<Rightarrow> session \<Rightarrow> db \<Rightarrow> outcome" where
  "dispatch e w m s d =
     (if text_in m START_TEXTS then cmd_start m s d
      else if text_of m = Some ENROLL_TEXT then start_enroll m s d
      else if state s = Some Phone \<and> contact_of m \<noteq> None then set_phone_from_contact m s d
      else if state s = Some Phone \<and> phone_regexp e m then set_phone_manual e m s d
      else if state s = Some Phone then invalid_phone m s d
      else if state s = Some Name_full then set_name_full e m s d
      else if state s = Some Age_group \<and> text_in m AGE_GROUPS then set_age m s d
      else if state s = Some Confirm \<and> text_of m = Some CONFIRM_TEXT then confirm e w m s d
      else if state s = Some Confirm \<and> text_of m = Some EDIT_TEXT then edit m s d
      else if text_of m = Some QUESTION_TEXT then ask_question e m s d
      else if text_of m = Some CONTACTS_TEXT then contacts e w m s d
      else fallback m s d)"


section \<open>Reference values of the specification\<close>

text \<open>The number of calls of a sequence that returned \<open>True\<close>.\<close>

definition successes :: "bool list \<Rightarrow> int" where
  "successes oks = int (length (filter (\<lambda>ok. ok) oks))"

text \<open>
  What store initialization is specified to yield: both tables exist with the rows
  they had, every known age group without a limit row gets one with the default
  limit, and the index exists.
\<close>

definition old_rows :: "db \<Rightarrow> enrollment list" where
  "old_rows d = (case enrollments d of None \<Rightarrow> [] | Some rows \<Rightarrow> rows)"

definition old_limits :: "db \<Rightarrow> (pystr \<times> int) list" where
  "old_limits d = (case group_limits d of None \<Rightarrow> [] | Some ls \<Rightarrow> ls)"

definition seeded :: "env \<Rightarrow> (pystr \<times> int) list \<Rightarrow> (pystr \<times> int) list" where
  "seeded e ls =
     ls @ map (\<lambda>ag. (ag, DEFAULT_GROUP_LIMIT e))
            (filter (\<lambda>ag. ag \<notin> set (map fst ls)) AGE_GROUPS)"

definition initialized :: "env \<Rightarrow> db \<Rightarrow> db" where
  "initialized e d =
     d\<lparr>enrollments := Some (old_rows d), group_limits := Some (seeded e (old_limits d)),
       idx_enrollments_age := True\<rparr>"

section \<open>Sample values\<close>

definition ascii_digit :: "nat \<Rightarrow> bool" where
  "ascii_digit c \<longleftrightarrow> 48 \<le> c \<and> c \<le> 57"

definition sample_env :: env where
  "sample_env =
     \<lparr>ADMIN_ID = Some 1000, DIRECTOR_USERNAME = None, DEFAULT_GROUP_LIMIT = 10,
      str_isdigit = ascii_digit, re_digit = ascii_digit\<rparr>"

definition GROUP_A :: pystr where
  "GROUP_A = [57, 8211, 49, 49, 32, 1083, 1077, 1090]"

definition GROUP_B :: pystr where
  "GROUP_B = [49, 50, 8211, 49, 52, 32, 1083, 1077, 1090]"

text \<open>A file with no table yet; a store with one seat in the first group only; a full store.\<close>

definition fresh_db :: db where
  "fresh_db =
     \<lparr>enrollments = None, sqlite_sequence = 0, group_limits = None,
      idx_enrollments_age = False\<rparr>"

definition one_seat_db :: db where
  "one_seat_db =
     \<lparr>enrollments = Some [], sqlite_sequence = 0,
      group_limits = Some [(GROUP_A, 1), (GROUP_B, 0)], idx_enrollments_age = True\<rparr>"

definition full_db :: db where
  "full_db =
     \<lparr>enrollments = Some [], sqlite_sequence = 0,
      group_limits = Some [(GROUP_A, 0), (GROUP_B, 0)], idx_enrollments_age = True\<rparr>"

definition sample_call :: enroll_call where
  "sample_call =
     \<lparr>call_child = ascii ''Ivan Petrov'', call_phone = Some (ascii ''+7 900 123-45-67''),
      call_user_id = 42, call_username = None, call_now = ascii ''2024-01-01T00:00:00''\<rparr>"





text \<open>Sample messages, all from user 42, and sample sessions.\<close>

definition text_msg :: "pystr \<Rightarrow> message" where
  "text_msg t = \<lparr>content = Text t, from_user_id = 42, from_username = None\<rparr>"


definition sample_io :: io where
  "sample_io =
     \<lparr>utcnow_insert = ascii ''2024-01-01T00:00:00'',
      utcnow_notify = ascii ''2024-01-01T00:00:01'',
      send_message_raises = True, answer_contact_raises = False\<rparr>"


definition awaiting_phone :: session where
  "awaiting_phone = \<lparr>state = Some Phone, data = no_data\<rparr>"

definition awaiting_name :: session where
  "awaiting_name =
     \<lparr>state = Some Name_full,
      data = \<lparr>data_phone = Some (ascii ''+7 900 123-45-67''), data_child_full = None,
              data_age_group = None\<rparr>\<rparr>"

definition awaiting_age :: session where
  "awaiting_age =
     \<lparr>state = Some Age_group,
      data = \<lparr>data_phone = Some (ascii ''+7 900 123-45-67''),
              data_child_full = Some (ascii ''Ivan Petrov''), data_age_group = None\<rparr>\<rparr>"

definition awaiting_confirm :: session where
  "awaiting_confirm =
     \<lparr>state = Some Confirm,
      data = \<lparr>data_phone = Some (ascii ''+7 900 123-45-67''),
              data_child_full = Some (ascii ''Ivan Petrov''),
              data_age_group = Some GROUP_A\<rparr>\<rparr>"



definition enrolled_db :: "pystr option \<Rightarrow> db" where
  "enrolled_db ph =
     \<lparr>enrollments = Some
        [\<lparr>rowid = 1, child_full = ascii ''Ivan Petrov'', age_group = GROUP_A, phone = ph,
          tg_user_id = 42, tg_username = None, created_at = ascii ''2024-01-01T00:00:00''\<rparr>],
      sqlite_sequence = 1, group_limits = Some [(GROUP_A, 1), (GROUP_B, 0)],
      idx_enrollments_age = True\<rparr>"





section \<open>The admission controller\<close>

lemma fold_max_ge: "(a::int) \<le> fold max xs a"
  by (induction xs arbitrary: a) (auto intro: order_trans [OF max.cobounded2])

lemma fold_max_mem: "x \<in> set xs \<Longrightarrow> (x::int) \<le> fold max xs a"
proof (induction xs arbitrary: a)
  case Nil
  then show ?case by simp
next
  case (Cons y ys)
  show ?case
  proof (cases "x = y")
    case True
    have "y \<le> max y a" by simp
    also have "\<dots> \<le> fold max ys (max y a)" by (rule fold_max_ge)
    finally show ?thesis using True by simp
  next
    case False
    with Cons show ?thesis by simp
  qed
qed

lemma next_rowid_fresh: "r \<in> set rows \<Longrightarrow> rowid r < next_rowid d rows"
  using fold_max_mem [of "rowid r" "map rowid rows" "sqlite_sequence d"]
  by (simp add: next_rowid_def)

lemma try_enroll_full:
  assumes "count_in_group d ag = Inr c" and "get_group_limit e d ag = Inr l" and "l \<le> c"
  shows "try_enroll e d child ag ph uid un now = Inr (False, d)"
  using assms by (simp add: try_enroll_def)

lemma try_enroll_free:
  assumes "count_in_group d ag = Inr c" and "get_group_limit e d ag = Inr l" and "c < l"
  shows "\<exists>rows. enrollments d = Some rows \<and>
           try_enroll e d child ag ph uid un now =
             Inr (True, d\<lparr>enrollments := Some (rows @
                   [\<lparr>rowid = next_rowid d rows, child_full = child, age_group = ag, phone = ph,
                     tg_user_id = uid, tg_username = un, created_at = now\<rparr>]),
                   sqlite_sequence := next_rowid d rows\<rparr>)"
  using assms by (auto simp: try_enroll_def count_in_group_def Let_def split: option.splits)

lemma try_enroll_free_count:
  assumes "count_in_group d ag = Inr c" and "get_group_limit e d ag = Inr l" and "c < l"
  shows "\<exists>d'. try_enroll e d child ag ph uid un now = Inr (True, d') \<and>
           count_in_group d' ag = Inr (c + 1) \<and> get_group_limit e d' ag = Inr l"
  using assms
  by (auto simp: try_enroll_def count_in_group_def get_group_limit_def Let_def
      split: option.splits)

text \<open>
  C2.  Given the count of rows of the requested group and its limit: when the count
  has reached the limit, \<open>try_enroll\<close> returns \<open>False\<close> and the store is the one it was
  given; otherwise it returns \<open>True\<close> and the store differs by exactly one new row at
  the end of \<open>enrollments\<close>, which carries the given fields and an id larger than
  every id of the table (and by the id counter).
\<close>

theorem try_enroll_contract:
  assumes "count_in_group d ag = Inr current" and "get_group_limit e d ag = Inr limit_v"
  shows "(current \<ge> limit_v \<longrightarrow> try_enroll e d child ag ph uid un now = Inr (False, d)) \<and>
         (current < limit_v \<longrightarrow>
            (\<exists>rows row. enrollments d = Some rows \<and>
               try_enroll e d child ag ph uid un now =
                 Inr (True, d\<lparr>enrollments := Some (rows @ [row]),
                               sqlite_sequence := rowid row\<rparr>) \<and>
               child_full row = child \<and> age_group row = ag \<and> phone row = ph \<and>
               tg_user_id row = uid \<and> tg_username row = un \<and> created_at row = now \<and>
               (\<forall>r \<in> set rows. rowid r < rowid row)))"
proof (intro conjI impI)
  assume "current \<ge> limit_v"
  then show "try_enroll e d child ag ph uid un now = Inr (False, d)"
    using try_enroll_full [OF assms] by simp
next
  assume "current < limit_v"
  from try_enroll_free [OF assms this, of child ph uid un now]
  obtain rows where rows: "enrollments d = Some rows"
    "try_enroll e d child ag ph uid un now =
       Inr (True, d\<lparr>enrollments := Some (rows @
             [\<lparr>rowid = next_rowid d rows, child_full = child, age_group = ag, phone = ph,
               tg_user_id = uid, tg_username = un, created_at = now\<rparr>]),
             sqlite_sequence := next_rowid d rows\<rparr>)"
    by blast
  let ?row = "\<lparr>rowid = next_rowid d rows, child_full = child, age_group = ag, phone = ph,
               tg_user_id = uid, tg_username = un, created_at = now\<rparr>"
  have "\<forall>r \<in> set rows. rowid r < rowid ?row"
    by (simp add: next_rowid_fresh)
  with rows show "\<exists>rows row. enrollments d = Some rows \<and>
      try_enroll e d child ag ph uid un now =
        Inr (True, d\<lparr>enrollments := Some (rows @ [row]), sqlite_sequence := rowid row\<rparr>) \<and>
      child_full row = child \<and> age_group row = ag \<and> phone row = ph \<and>
      tg_user_id row = uid \<and> tg_username row = un \<and> created_at row = now \<and>
      (\<forall>r \<in> set rows. rowid r < rowid row)"
    by (intro exI [of _ rows] exI [of _ ?row]) simp
qed

theorem try_enroll_contract_witness:
  "count_in_group one_seat_db GROUP_A = Inr 0 \<and>
   get_group_limit sample_env one_seat_db GROUP_A = Inr 1 \<and>
   try_enroll sample_env one_seat_db (ascii ''Ivan Petrov'') GROUP_A None 42 None
       (ascii ''2024-01-01T00:00:00'') =
     Inr (True, one_seat_db\<lparr>enrollments := Some
           [\<lparr>rowid = 1, child_full = ascii ''Ivan Petrov'', age_group = GROUP_A, phone = None,
             tg_user_id = 42, tg_username = None,
             created_at = ascii ''2024-01-01T00:00:00''\<rparr>],
           sqlite_sequence := 1\<rparr>) \<and>
   count_in_group one_seat_db GROUP_B = Inr 0 \<and>
   get_group_limit sample_env one_seat_db GROUP_B = Inr 0 \<and>
   try_enroll sample_env one_seat_db (ascii ''Ivan Petrov'') GROUP_B None 42 None
       (ascii ''2024-01-01T00:00:00'') = Inr (False, one_seat_db)"
proof -
  have a: "count_in_group one_seat_db GROUP_A = Inr 0"
    and b: "count_in_group one_seat_db GROUP_B = Inr 0"
    by (simp_all add: count_in_group_def one_seat_db_def)
  have la: "get_group_limit sample_env one_seat_db GROUP_A = Inr 1"
    and lb: "get_group_limit sample_env one_seat_db GROUP_B = Inr 0"
    by (simp_all add: get_group_limit_def one_seat_db_def GROUP_A_def GROUP_B_def)
  have rows: "enrollments one_seat_db = Some []"
    by (simp add: one_seat_db_def)
  have seq: "next_rowid one_seat_db [] = 1"
    by (simp add: next_rowid_def one_seat_db_def)
  show ?thesis
    using try_enroll_contract [OF a la, of "ascii ''Ivan Petrov''" None 42 None
        "ascii ''2024-01-01T00:00:00''"]
      try_enroll_contract [OF b lb, of "ascii ''Ivan Petrov''" None 42 None
        "ascii ''2024-01-01T00:00:00''"]
      a b la lb rows
    by (auto simp: try_enroll_def Let_def seq)
qed

lemma enroll_all_count:
  assumes "get_group_limit e d ag = Inr l" and "count_in_group d ag = Inr c" and "c \<le> l"
  shows "\<exists>oks d'. enroll_all e ag d calls = Inr (oks, d') \<and> length oks = length calls \<and>
           count_in_group d' ag = Inr (c + successes oks) \<and>
           c + successes oks = min l (c + int (length calls)) \<and>
           get_group_limit e d' ag = Inr l"
  using assms
proof (induction calls arbitrary: d c)
  case Nil
  then show ?case by (simp add: successes_def)
next
  case (Cons a calls)
  show ?case
  proof (cases "c < l")
    case True
    obtain d1 where d1: "try_enroll e d (call_child a) ag (call_phone a) (call_user_id a)
         (call_username a) (call_now a) = Inr (True, d1)"
      "count_in_group d1 ag = Inr (c + 1)" "get_group_limit e d1 ag = Inr l"
      using try_enroll_free_count [OF Cons.prems(2) Cons.prems(1) True] by blast
    from True have "c + 1 \<le> l" by simp
    from Cons.IH [OF d1(3) d1(2) this]
    obtain oks d' where r: "enroll_all e ag d1 calls = Inr (oks, d')" "length oks = length calls"
      "count_in_group d' ag = Inr (c + 1 + successes oks)"
      "c + 1 + successes oks = min l (c + 1 + int (length calls))"
      "get_group_limit e d' ag = Inr l" by blast
    show ?thesis using d1(1) r by (simp add: algebra_simps successes_def)
  next
    case False
    with Cons.prems have eq: "c = l" by simp
    have t: "try_enroll e d (call_child a) ag (call_phone a) (call_user_id a)
         (call_username a) (call_now a) = Inr (False, d)"
      using try_enroll_full [OF Cons.prems(2) Cons.prems(1)] eq by simp
    from Cons.IH [OF Cons.prems]
    obtain oks d' where r: "enroll_all e ag d calls = Inr (oks, d')" "length oks = length calls"
      "count_in_group d' ag = Inr (c + successes oks)"
      "c + successes oks = min l (c + int (length calls))"
      "get_group_limit e d' ag = Inr l" by blast
    show ?thesis using t r eq by (simp add: successes_def)
  qed
qed

text \<open>
  C1.  Capacity invariant: a sequence of \<open>try_enroll\<close> calls against one age group
  whose limit is \<open>l\<close>, run from a store in which the group holds \<open>c \<le> l\<close> rows (the
  rows of the calls that returned \<open>True\<close> before; \<open>c = 0\<close> for a new store), never
  fails, leaves the count of the group at most \<open>l\<close> after every prefix of the
  sequence, and ends with the count equal to \<open>min l\<close> of the number of calls that
  returned \<open>True\<close>, those \<open>c\<close> included; every call succeeds until the limit is
  reached and none after.
\<close>

theorem capacity_invariant:
  assumes "get_group_limit e d ag = Inr l" and "count_in_group d ag = Inr c" and "c \<le> l"
  shows "\<exists>oks d'. enroll_all e ag d calls = Inr (oks, d') \<and>
           count_in_group d' ag = Inr (min l (c + successes oks)) \<and>
           c + successes oks = min l (c + int (length calls)) \<and>
           (\<forall>n \<le> length calls. \<exists>oks_n d_n c_n.
              enroll_all e ag d (take n calls) = Inr (oks_n, d_n) \<and>
              count_in_group d_n ag = Inr c_n \<and> c_n \<le> l)"
proof -
  from enroll_all_count [OF assms, of calls]
  obtain oks d' where r: "enroll_all e ag d calls = Inr (oks, d')"
    "count_in_group d' ag = Inr (c + successes oks)"
    "c + successes oks = min l (c + int (length calls))" by blast
  have pre: "\<exists>oks_n d_n c_n. enroll_all e ag d (take n calls) = Inr (oks_n, d_n) \<and>
      count_in_group d_n ag = Inr c_n \<and> c_n \<le> l" for n
  proof -
    from enroll_all_count [OF assms, of "take n calls"]
    obtain oks_n d_n where "enroll_all e ag d (take n calls) = Inr (oks_n, d_n)"
      "count_in_group d_n ag = Inr (c + successes oks_n)"
      "c + successes oks_n = min l (c + int (length (take n calls)))" by blast
    then show ?thesis by auto
  qed
  from r have "count_in_group d' ag = Inr (min l (c + successes oks))" by simp
  with r(1,3) pre show ?thesis by blast
qed

theorem capacity_invariant_witness:
  "get_group_limit sample_env one_seat_db GROUP_A = Inr 1 \<and>
   count_in_group one_seat_db GROUP_A = Inr 0 \<and>
   (\<exists>oks d'. enroll_all sample_env GROUP_A one_seat_db [sample_call, sample_call, sample_call]
        = Inr (oks, d') \<and>
      oks = [True, False, False] \<and> count_in_group d' GROUP_A = Inr 1 \<and>
      count_in_group d' GROUP_A = Inr (min 1 (successes oks)))"
proof -
  have c: "count_in_group one_seat_db GROUP_A = Inr 0"
    by (simp add: count_in_group_def one_seat_db_def)
  have l: "get_group_limit sample_env one_seat_db GROUP_A = Inr 1"
    by (simp add: get_group_limit_def one_seat_db_def GROUP_A_def GROUP_B_def)
  have rows: "enrollments one_seat_db = Some []"
    by (simp add: one_seat_db_def)
  from capacity_invariant [OF l c, of "[sample_call, sample_call, sample_call]"]
  obtain oks d' where r:
    "enroll_all sample_env GROUP_A one_seat_db [sample_call, sample_call, sample_call]
       = Inr (oks, d')"
    "count_in_group d' GROUP_A = Inr (min 1 (0 + successes oks))"
    by auto
  have "oks = [True, False, False]"
    using r(1) c l rows
    by (auto simp: try_enroll_def count_in_group_def get_group_limit_def Let_def
        split: sum.splits)
  with r c l show ?thesis by (simp add: successes_def)
qed

section \<open>Store initialization\<close>

lemma seed_limits_closed:
  assumes "group_limits d = Some ls" and "distinct ags"
  shows "seed_limits e ags d =
           Inr (d\<lparr>group_limits := Some (ls @ map (\<lambda>ag. (ag, DEFAULT_GROUP_LIMIT e))
                   (filter (\<lambda>ag. ag \<notin> set (map fst ls)) ags))\<rparr>)"
  using assms
proof (induction ags arbitrary: d ls)
  case Nil
  then show ?case by (cases d) simp
next
  case (Cons ag ags)
  show ?case
  proof (cases "ag \<in> set (map fst ls)")
    case True
    then have "select_one_limit d ag = Inr (Some ())"
      using Cons.prems(1) by (simp add: select_one_limit_def)
    moreover have "distinct ags" using Cons.prems(2) by simp
    ultimately show ?thesis
      using Cons.IH [OF Cons.prems(1)] True by simp
  next
    case False
    let ?d' = "d\<lparr>group_limits := Some (ls @ [(ag, DEFAULT_GROUP_LIMIT e)])\<rparr>"
    have sel: "select_one_limit d ag = Inr None"
      using Cons.prems(1) False by (simp add: select_one_limit_def)
    have ins: "insert_limit d ag (DEFAULT_GROUP_LIMIT e) = Inr ?d'"
      using Cons.prems(1) False by (simp add: insert_limit_def)
    have gl: "group_limits ?d' = Some (ls @ [(ag, DEFAULT_GROUP_LIMIT e)])" by simp
    have dist: "distinct ags" and notin: "ag \<notin> set ags" using Cons.prems(2) by simp_all
    have flt: "filter (\<lambda>a. a \<notin> set (map fst (ls @ [(ag, DEFAULT_GROUP_LIMIT e)]))) ags
               = filter (\<lambda>a. a \<notin> set (map fst ls)) ags"
      using notin by (intro filter_cong) auto
    show ?thesis
      using Cons.IH [OF gl dist] sel ins False flt by simp
  qed
qed

lemma distinct_AGE_GROUPS: "distinct AGE_GROUPS"
  by (simp add: AGE_GROUPS_def)

lemma init_db_closed: "init_db e d = Inr (initialized e d)"
proof -
  let ?d3 = "d\<lparr>enrollments := Some (old_rows d), group_limits := Some (old_limits d),
               idx_enrollments_age := True\<rparr>"
  have c: "create_index (create_group_limits (create_enrollments d)) = Inr ?d3"
    by (cases d)
      (auto simp: create_index_def create_group_limits_def create_enrollments_def old_rows_def
        old_limits_def split: option.splits)
  have gl: "group_limits ?d3 = Some (old_limits d)" by simp
  show ?thesis
    using seed_limits_closed [OF gl distinct_AGE_GROUPS, of e] c
    by (simp add: init_db_def initialized_def seeded_def)
qed

lemma seeded_keys: "set AGE_GROUPS \<subseteq> set (map fst (seeded e ls))"
  by (auto simp: seeded_def)

lemma seeded_twice: "seeded e (seeded e ls) = seeded e ls"
proof -
  have "filter (\<lambda>ag. ag \<notin> set (map fst (seeded e ls))) AGE_GROUPS = []"
    using seeded_keys [of e ls] by (auto simp: filter_empty_conv)
  then show ?thesis by (simp add: seeded_def [of e "seeded e ls"])
qed

lemma initialized_twice: "initialized e (initialized e d) = initialized e d"
  by (simp add: initialized_def old_rows_def old_limits_def seeded_twice)

lemma init_db_times_closed: "0 < n \<Longrightarrow> init_db_times e n d = Inr (initialized e d)"
proof (induction n arbitrary: d)
  case 0
  then show ?case by simp
next
  case (Suc n)
  show ?case
  proof (cases n)
    case 0
    then show ?thesis by (simp add: init_db_closed)
  next
    case (Suc k)
    then have "init_db_times e n (initialized e d) = Inr (initialized e (initialized e d))"
      using Suc.IH by simp
    then show ?thesis by (simp add: init_db_closed initialized_twice)
  qed
qed

lemma count_key:
  "distinct (map fst ls) \<Longrightarrow>
     length (filter (\<lambda>(k, v). k = ag) ls) = (if ag \<in> set (map fst ls) then 1 else 0)"
proof (induction ls)
  case Nil
  then show ?case by simp
next
  case (Cons a ls)
  then show ?case by (cases a) (auto simp: image_iff)
qed

lemma seeded_distinct: "distinct (map fst ls) \<Longrightarrow> distinct (map fst (seeded e ls))"
  using distinct_AGE_GROUPS
  by (auto simp: seeded_def comp_def distinct_map_filter)

lemma seeded_one_row:
  assumes "distinct (map fst ls)" and "ag \<in> set AGE_GROUPS"
  shows "length (filter (\<lambda>(k, v). k = ag) (seeded e ls)) = 1"
  using count_key [OF seeded_distinct [OF assms(1)], of ag e] seeded_keys [of e ls] assms(2)
  by auto

lemma seeded_value:
  "map_of (seeded e ls) ag =
     (case map_of ls ag of
        Some v \<Rightarrow> Some v
      | None \<Rightarrow> if ag \<in> set AGE_GROUPS then Some (DEFAULT_GROUP_LIMIT e) else None)"
  by (auto simp: seeded_def map_add_def map_of_map_restrict restrict_map_def comp_def
      map_of_eq_None_iff image_iff split: option.splits)

text \<open>
  C8.  Store initialization is idempotent.  For a store whose \<open>group_limits\<close> rows
  have distinct keys (the table's primary key) and every \<open>n \<ge> 1\<close>: \<open>init_db\<close> never
  fails, and \<open>n\<close> calls in sequence yield the store one call yields.  In that store
  every known age group has exactly one limit row, holding the limit it had or else
  the default; the limit rows that existed come first and unchanged; \<open>enrollments\<close>
  exists with exactly the rows it had (none if it did not exist); the index exists;
  the id counter is untouched.
\<close>

theorem init_db_idempotent:
  assumes "distinct (map fst (old_limits d))" and "1 \<le> n"
  shows "\<exists>d1 ls1 new.
           init_db e d = Inr d1 \<and> init_db_times e n d = Inr d1 \<and> init_db e d1 = Inr d1 \<and>
           group_limits d1 = Some ls1 \<and> ls1 = old_limits d @ new \<and>
           (\<forall>ag \<in> set AGE_GROUPS.
              length (filter (\<lambda>(k, v). k = ag) ls1) = 1 \<and>
              map_of ls1 ag =
                Some (case map_of (old_limits d) ag of
                        Some v \<Rightarrow> v
                      | None \<Rightarrow> DEFAULT_GROUP_LIMIT e)) \<and>
           enrollments d1 = Some (old_rows d) \<and> idx_enrollments_age d1 \<and>
           sqlite_sequence d1 = sqlite_sequence d"
proof -
  let ?d1 = "initialized e d"
  let ?ls1 = "seeded e (old_limits d)"
  have 1: "init_db e d = Inr ?d1" by (rule init_db_closed)
  have 2: "init_db_times e n d = Inr ?d1"
    using assms(2) by (simp add: init_db_times_closed)
  have 3: "init_db e ?d1 = Inr ?d1"
    by (simp add: init_db_closed initialized_twice)
  have 4: "group_limits ?d1 = Some ?ls1" by (simp add: initialized_def)
  have 5: "\<exists>new. ?ls1 = old_limits d @ new" by (simp add: seeded_def)
  have 6: "\<forall>ag \<in> set AGE_GROUPS.
      length (filter (\<lambda>(k, v). k = ag) ?ls1) = 1 \<and>
      map_of ?ls1 ag =
        Some (case map_of (old_limits d) ag of Some v \<Rightarrow> v | None \<Rightarrow> DEFAULT_GROUP_LIMIT e)"
    using seeded_one_row [OF assms(1)]
    by (auto simp: seeded_value split: option.splits)
  have 7: "enrollments ?d1 = Some (old_rows d)" "idx_enrollments_age ?d1"
    "sqlite_sequence ?d1 = sqlite_sequence d"
    by (simp_all add: initialized_def)
  from 1 2 3 4 5 6 7 show ?thesis by blast
qed

theorem init_db_idempotent_witness:
  "distinct (map fst (old_limits fresh_db)) \<and> (1::nat) \<le> 3 \<and>
   init_db sample_env fresh_db =
     Inr \<lparr>enrollments = Some [], sqlite_sequence = 0,
          group_limits = Some [(GROUP_A, 10), (GROUP_B, 10)], idx_enrollments_age = True\<rparr> \<and>
   init_db_times sample_env 3 fresh_db = init_db sample_env fresh_db"
proof -
  have h: "distinct (map fst (old_limits fresh_db))"
    by (simp add: old_limits_def fresh_db_def)
  have v: "initialized sample_env fresh_db =
      \<lparr>enrollments = Some [], sqlite_sequence = 0,
       group_limits = Some [(GROUP_A, 10), (GROUP_B, 10)], idx_enrollments_age = True\<rparr>"
    by (simp add: initialized_def seeded_def old_rows_def old_limits_def fresh_db_def
        sample_env_def AGE_GROUPS_def GROUP_A_def GROUP_B_def)
  show ?thesis
    using init_db_idempotent [OF h, of 3 sample_env] h v
    by (auto simp: init_db_closed)
qed

section \<open>Splitting, joining and stripping\<close>

lemma isspace_32: "isspace 32"
  by (simp add: isspace_def)

lemma split_from_tokens:
  assumes "\<forall>c \<in> set cur. \<not> isspace c" and "w \<in> set (split_from cur s)"
  shows "w \<noteq> [] \<and> (\<forall>c \<in> set w. \<not> isspace c)"
  using assms
proof (induction s arbitrary: cur)
  case Nil
  then show ?case by (auto split: if_splits)
next
  case (Cons c cs)
  show ?case
  proof (cases "isspace c")
    case True
    then show ?thesis using Cons.prems Cons.IH [of "[]"]
      by (auto split: if_splits)
  next
    case False
    then have "\<forall>x \<in> set (cur @ [c]). \<not> isspace x" using Cons.prems(1) by auto
    from Cons.IH [OF this] Cons.prems(2) False show ?thesis by simp
  qed
qed

lemma py_split_tokens: "w \<in> set (py_split t) \<Longrightarrow> w \<noteq> [] \<and> 32 \<notin> set w"
  using split_from_tokens [of "[]" w t] isspace_32 by (auto simp: py_split_def)

lemma split_on_no_sep: "sep \<notin> set w \<Longrightarrow> split_on sep w = [w]"
  by (induction w) auto

lemma split_on_append:
  "sep \<notin> set w \<Longrightarrow> split_on sep (w @ sep # rest) = w # split_on sep rest"
  by (induction w) auto

lemma split_on_join:
  "ws \<noteq> [] \<Longrightarrow> \<forall>w \<in> set ws. sep \<notin> set w \<Longrightarrow> split_on sep (py_join [sep] ws) = ws"
proof (induction "[sep]" ws rule: py_join.induct)
  case 1
  then show ?case by simp
next
  case (2 w)
  then show ?case by (simp add: split_on_no_sep)
next
  case (3 w v ws)
  then show ?case by (simp add: split_on_append)
qed

lemma name_parts:
  "split_on 32 (py_join [32] (py_split t)) = (if py_split t = [] then [[]] else py_split t)"
  using split_on_join [of "py_split t" 32] py_split_tokens [of _ t] by auto

lemma py_strip_decomp:
  "\<exists>a b. t = a @ py_strip t @ b \<and> list_all isspace a \<and> list_all isspace b"
proof -
  let ?a = "takeWhile isspace t"
  let ?u = "dropWhile isspace t"
  let ?b = "rev (takeWhile isspace (rev ?u))"
  have "?u = rev (dropWhile isspace (rev ?u)) @ ?b"
    by (metis rev_append rev_rev_ident takeWhile_dropWhile_id)
  then have u: "?u = py_strip t @ ?b" by (simp only: py_strip_def)
  have "t = ?a @ ?u" by simp
  with u have "t = ?a @ py_strip t @ ?b" by simp
  moreover have "list_all isspace ?a"
    by (simp add: list_all_iff) (meson set_takeWhileD)
  moreover have "list_all isspace ?b"
    by (simp add: list_all_iff) (meson set_takeWhileD)
  ultimately show ?thesis by blast
qed

lemma py_strip_ends:
  "py_strip t \<noteq> [] \<Longrightarrow> \<not> isspace (hd (py_strip t)) \<and> \<not> isspace (last (py_strip t))"
proof -
  assume ne: "py_strip t \<noteq> []"
  let ?u = "dropWhile isspace t"
  let ?v = "dropWhile isspace (rev ?u)"
  have v: "?v \<noteq> []" using ne by (simp add: py_strip_def)
  then have hv: "\<not> isspace (hd ?v)" by (rule hd_dropWhile)
  have last: "last (py_strip t) = hd ?v" using v by (simp add: py_strip_def last_rev)
  have une: "?u \<noteq> []" using v by (metis dropWhile.simps(1) rev.simps(1))
  then have hu: "\<not> isspace (hd ?u)" by (rule hd_dropWhile)
  have "rev ?u = takeWhile isspace (rev ?u) @ ?v" by simp
  then have "?u = rev ?v @ rev (takeWhile isspace (rev ?u))"
    by (metis rev_append rev_rev_ident)
  then have "hd ?u = hd (rev ?v)" using v by (metis hd_append2 rev_is_Nil_conv)
  then have "hd (py_strip t) = hd ?u" by (simp add: py_strip_def)
  with hu hv last show ?thesis by simp
qed

lemma py_strip_digits:
  assumes "\<And>c. isspace c \<Longrightarrow> \<not> P c"
  shows "filter P (py_strip t) = filter P t"
proof -
  obtain a b where d: "t = a @ py_strip t @ b" "list_all isspace a" "list_all isspace b"
    using py_strip_decomp by blast
  have "filter P a = []" "filter P b = []"
    using d(2,3) assms by (auto simp: list_all_iff filter_empty_conv)
  then have "filter P (a @ py_strip t @ b) = filter P (py_strip t)" by simp
  with d(1) show ?thesis by simp
qed


section \<open>The phone and name steps\<close>

text \<open>
  C6 (as amended).  Manual phone validation: for every text the manual-entry handler
  is given (no whitespace character being a digit): with fewer than 10 digits the
  text is rejected, and the session and the store stay as they were, with a
  re-prompt; with 10 digits or more the session stores the text with its leading and
  trailing whitespace removed and is otherwise unchanged, and advances to the name
  step.  The stored string is the text between a whitespace prefix and a whitespace
  suffix, and neither starts nor ends with whitespace.
\<close>

theorem set_phone_manual_validates:
  assumes "text_of m = Some t" and "\<forall>c. isspace c \<longrightarrow> \<not> str_isdigit e c"
  shows "(length (filter (str_isdigit e) t) < 10 \<longrightarrow>
            set_phone_manual e m s d = (s, d, [Answer Phone_too_short No_markup])) \<and>
         (10 \<le> length (filter (str_isdigit e) t) \<longrightarrow>
            set_phone_manual e m s d =
              (s\<lparr>data := (data s)\<lparr>data_phone := Some (py_strip t)\<rparr>, state := Some Name_full\<rparr>,
               d, [Answer Ask_name Reply_keyboard_remove])) \<and>
         (\<exists>a b. t = a @ py_strip t @ b \<and> list_all isspace a \<and> list_all isspace b) \<and>
         (py_strip t \<noteq> [] \<longrightarrow>
            \<not> isspace (hd (py_strip t)) \<and> \<not> isspace (last (py_strip t)))"
proof -
  have "filter (str_isdigit e) (py_strip t) = filter (str_isdigit e) t"
    using assms(2) by (intro py_strip_digits) simp
  then show ?thesis
    using assms(1) py_strip_decomp [of t] py_strip_ends [of t]
    by (simp add: set_phone_manual_def Let_def)
qed

theorem set_phone_manual_validates_witness:
  "set_phone_manual sample_env (text_msg (ascii ''12345'')) awaiting_phone one_seat_db =
     (awaiting_phone, one_seat_db, [Answer Phone_too_short No_markup]) \<and>
   set_phone_manual sample_env (text_msg (ascii ''+7 900 123-45-67'')) awaiting_phone
       one_seat_db =
     (awaiting_phone\<lparr>data := (data awaiting_phone)\<lparr>data_phone :=
          Some (ascii ''+7 900 123-45-67'')\<rparr>, state := Some Name_full\<rparr>,
      one_seat_db, [Answer Ask_name Reply_keyboard_remove])"
proof -
  have ws: "\<forall>c. isspace c \<longrightarrow> \<not> str_isdigit sample_env c"
    by (auto simp: isspace_def sample_env_def ascii_digit_def)
  have t1: "text_of (text_msg (ascii ''12345'')) = Some (ascii ''12345'')"
    and t2: "text_of (text_msg (ascii ''+7 900 123-45-67'')) = Some (ascii ''+7 900 123-45-67'')"
    by (simp_all add: text_of_def text_msg_def)
  have s2: "py_strip (ascii ''+7 900 123-45-67'') = ascii ''+7 900 123-45-67''"
    by (simp add: py_strip_def ascii_def isspace_def)
  have d1: "length (filter (str_isdigit sample_env) (ascii ''12345'')) = 5"
    and d2: "length (filter (str_isdigit sample_env) (ascii ''+7 900 123-45-67'')) = 11"
    by (simp_all add: sample_env_def ascii_digit_def ascii_def)
  show ?thesis
    using set_phone_manual_validates [OF t1 ws, of awaiting_phone one_seat_db]
      set_phone_manual_validates [OF t2 ws, of awaiting_phone one_seat_db]
    by (simp add: d1 d2 s2)
qed

text \<open>
  Where C6 fails as stated: a text with outer whitespace passes the filter of the
  manual-entry handler, and what is stored is not the text itself.
\<close>

theorem stored_phone_is_stripped:
  "dispatch sample_env sample_io (text_msg (ascii '' +7 900 123-45-67 '')) awaiting_phone
     one_seat_db =
   (\<lparr>state = Some Name_full,
     data = \<lparr>data_phone = Some (ascii ''+7 900 123-45-67''), data_child_full = None,
             data_age_group = None\<rparr>\<rparr>,
    one_seat_db, [Answer Ask_name Reply_keyboard_remove]) \<and>
   ascii ''+7 900 123-45-67'' \<noteq> ascii '' +7 900 123-45-67 ''"
  by (simp add: dispatch_def text_in_def text_msg_def text_of_def contact_of_def
      START_TEXTS_def ENROLL_TEXT_def awaiting_phone_def phone_regexp_def phone_char_def
      sample_env_def ascii_digit_def isspace_def set_phone_manual_def py_strip_def
      ascii_def no_data_def Let_def)

text \<open>
  C7.  Name normalization: for every text, when it splits into at least two
  whitespace-separated tokens the session stores the first token, one space, and the
  remaining tokens joined by single spaces, and moves to the age-group step (the
  store is not written); when it splits into fewer than two tokens the handler
  answers with the re-prompt and the session and the store are unchanged.
\<close>

theorem set_name_full_normalizes:
  assumes "text_of m = Some t"
  shows "(2 \<le> length (py_split t) \<longrightarrow>
            (\<exists>evs. set_name_full e m s d =
               (s\<lparr>data := (data s)\<lparr>data_child_full :=
                      Some (hd (py_split t) @ [32] @ py_join [32] (tl (py_split t)))\<rparr>,
                  state := Some Age_group\<rparr>, d, evs))) \<and>
         (length (py_split t) < 2 \<longrightarrow>
            set_name_full e m s d = (s, d, [Answer Name_two_words No_markup]))"
proof (intro conjI impI)
  assume two: "2 \<le> length (py_split t)"
  then have "py_split t \<noteq> []" by auto
  then have parts: "split_on 32 (py_join [32] (py_split t)) = py_split t"
    by (simp add: name_parts)
  show "\<exists>evs. set_name_full e m s d =
      (s\<lparr>data := (data s)\<lparr>data_child_full :=
             Some (hd (py_split t) @ [32] @ py_join [32] (tl (py_split t)))\<rparr>,
         state := Some Age_group\<rparr>, d, evs)"
    using assms two
    by (simp add: set_name_full_def parts Let_def split: sum.splits)
next
  assume one: "length (py_split t) < 2"
  have "length (split_on 32 (py_join [32] (py_split t))) < 2"
    using one by (simp add: name_parts)
  then show "set_name_full e m s d = (s, d, [Answer Name_two_words No_markup])"
    using assms by (simp add: set_name_full_def Let_def)
qed

theorem set_name_full_normalizes_witness:
  "py_split (ascii ''  Ivan   Petrov  '') = [ascii ''Ivan'', ascii ''Petrov''] \<and>
   (\<exists>evs. set_name_full sample_env (text_msg (ascii ''  Ivan   Petrov  '')) awaiting_name
        one_seat_db =
      (awaiting_name\<lparr>data := (data awaiting_name)\<lparr>data_child_full :=
           Some (ascii ''Ivan Petrov'')\<rparr>, state := Some Age_group\<rparr>, one_seat_db, evs)) \<and>
   set_name_full sample_env (text_msg (ascii ''Ivan'')) awaiting_name one_seat_db =
     (awaiting_name, one_seat_db, [Answer Name_two_words No_markup])"
proof -
  have t1: "text_of (text_msg (ascii ''  Ivan   Petrov  '')) = Some (ascii ''  Ivan   Petrov  '')"
    and t2: "text_of (text_msg (ascii ''Ivan'')) = Some (ascii ''Ivan'')"
    by (simp_all add: text_of_def text_msg_def)
  have p1: "py_split (ascii ''  Ivan   Petrov  '') = [ascii ''Ivan'', ascii ''Petrov'']"
    and p2: "py_split (ascii ''Ivan'') = [ascii ''Ivan'']"
    by (simp_all add: py_split_def ascii_def isspace_def)
  have j: "ascii ''Ivan'' @ 32 # ascii ''Petrov'' = ascii ''Ivan Petrov''"
    by (simp add: ascii_def)
  show ?thesis
    using set_name_full_normalizes [OF t1, of sample_env awaiting_name one_seat_db]
      set_name_full_normalizes [OF t2, of sample_env awaiting_name one_seat_db]
    by (simp add: p1 p2 j)
qed

section \<open>The age-group step\<close>

lemma remaining_of_sound:
  "remaining_of e d ags = Inr left \<Longrightarrow>
     map fst left = ags \<and> (\<forall>(ag, v) \<in> set left. get_remaining e d ag = Inr v)"
proof (induction ags arbitrary: left)
  case Nil
  then show ?case by simp
next
  case (Cons ag ags)
  then show ?case by (auto split: sum.splits)
qed

lemma age_kb_dynamic_buttons:
  assumes "age_kb_dynamic e d = Inr kb"
  shows "\<exists>bs. kb = Reply_keyboard bs \<and>
           (\<forall>b \<in> set bs. b = Button BACK_TEXT \<or>
              (\<exists>ag v. b = Button ag \<and> ag \<in> set AGE_GROUPS \<and> get_remaining e d ag = Inr v \<and> 0 < v))"
proof -
  from assms obtain left where l: "remaining_of e d AGE_GROUPS = Inr left"
    by (auto simp: age_kb_dynamic_def split: sum.splits)
  from remaining_of_sound [OF l]
  have m: "map fst left = AGE_GROUPS"
    and g: "get_remaining e d ag = Inr v" if "(ag, v) \<in> set left" for ag v
    using that by auto
  have "ag \<in> set AGE_GROUPS" if "(ag, v) \<in> set left" for ag v
    using that m by (metis fst_conv image_eqI set_map)
  with g assms l show ?thesis
    by (auto simp: age_kb_dynamic_def Let_def split: if_splits)
qed

lemma not_trigger:
  assumes "g \<in> set AGE_GROUPS"
  shows "g \<notin> set START_TEXTS" and "g \<noteq> ENROLL_TEXT"
  using assms by (auto simp: AGE_GROUPS_def START_TEXTS_def ENROLL_TEXT_def ascii_def)

text \<open>
  C10.  In the age-group step a text equal to a label of \<open>AGE_GROUPS\<close> is routed to
  \<open>set_age\<close>, which records the label and moves the session to the confirmation step
  without reading the store, whatever seats remain; the keyboard \<open>age_kb_dynamic\<close>
  offers only groups with a remaining seat (or the single back button).
\<close>

theorem set_age_ignores_availability:
  assumes "state s = Some Age_group" and "text_of m = Some g" and "g \<in> set AGE_GROUPS"
  shows "(\<exists>evs. dispatch e w m s d =
            (s\<lparr>data := (data s)\<lparr>data_age_group := Some g\<rparr>, state := Some Confirm\<rparr>, d, evs)) \<and>
         (\<forall>kb. age_kb_dynamic e d = Inr kb \<longrightarrow>
            (\<exists>bs. kb = Reply_keyboard bs \<and>
               (\<forall>b \<in> set bs. b = Button BACK_TEXT \<or>
                  (\<exists>ag v. b = Button ag \<and> ag \<in> set AGE_GROUPS \<and>
                     get_remaining e d ag = Inr v \<and> 0 < v))))"
proof -
  have d: "dispatch e w m s d = set_age m s d"
    using assms not_trigger [OF assms(3)]
    by (simp add: dispatch_def text_in_def)
  have "\<exists>evs. set_age m s d =
      (s\<lparr>data := (data s)\<lparr>data_age_group := Some g\<rparr>, state := Some Confirm\<rparr>, d, evs)"
    using assms(2) by (simp add: set_age_def Let_def split: option.splits)
  with d age_kb_dynamic_buttons show ?thesis by simp
qed

lemma full_remaining: "remaining_of sample_env full_db AGE_GROUPS = Inr [(GROUP_A, 0), (GROUP_B, 0)]"
  by (simp add: AGE_GROUPS_def GROUP_A_def GROUP_B_def get_remaining_def get_group_limit_def
      count_in_group_def full_db_def)

theorem set_age_ignores_availability_witness:
  "state awaiting_age = Some Age_group \<and> text_of (text_msg GROUP_A) = Some GROUP_A \<and>
   GROUP_A \<in> set AGE_GROUPS \<and> get_remaining sample_env full_db GROUP_A = Inr 0 \<and>
   age_kb_dynamic sample_env full_db = Inr (Reply_keyboard [Button BACK_TEXT]) \<and>
   dispatch sample_env sample_io (text_msg GROUP_A) awaiting_age full_db =
     (awaiting_age\<lparr>data := (data awaiting_age)\<lparr>data_age_group := Some GROUP_A\<rparr>,
        state := Some Confirm\<rparr>, full_db,
      [Answer (Check_data (ascii ''Ivan Petrov'') GROUP_A (Some (ascii ''+7 900 123-45-67'')))
         confirm_kb])"
proof -
  have a: "state awaiting_age = Some Age_group" by (simp add: awaiting_age_def)
  have b: "text_of (text_msg GROUP_A) = Some GROUP_A" by (simp add: text_of_def text_msg_def)
  have c: "GROUP_A \<in> set AGE_GROUPS" by (simp add: AGE_GROUPS_def GROUP_A_def)
  have r: "get_remaining sample_env full_db GROUP_A = Inr 0"
    by (simp add: get_remaining_def get_group_limit_def count_in_group_def full_db_def)
  have k: "age_kb_dynamic sample_env full_db = Inr (Reply_keyboard [Button BACK_TEXT])"
    by (simp add: age_kb_dynamic_def full_remaining)
  from set_age_ignores_availability [OF a b c, of sample_env sample_io full_db]
  obtain evs where e: "dispatch sample_env sample_io (text_msg GROUP_A) awaiting_age full_db =
     (awaiting_age\<lparr>data := (data awaiting_age)\<lparr>data_age_group := Some GROUP_A\<rparr>,
        state := Some Confirm\<rparr>, full_db, evs)" by blast
  have "dispatch sample_env sample_io (text_msg GROUP_A) awaiting_age full_db
      = set_age (text_msg GROUP_A) awaiting_age full_db"
    using a b c not_trigger [OF c] by (simp add: dispatch_def text_in_def)
  then have "evs = [Answer (Check_data (ascii ''Ivan Petrov'') GROUP_A
      (Some (ascii ''+7 900 123-45-67''))) confirm_kb]"
    using e b by (simp add: set_age_def awaiting_age_def Let_def)
  with a b c r k e show ?thesis by simp
qed

section \<open>The confirmation step\<close>

lemma all_full_group:
  assumes "remaining_of e d AGE_GROUPS = Inr left" and "list_all (\<lambda>(ag, v). v = 0) left"
    and "ag \<in> set AGE_GROUPS"
  shows "\<exists>c l. count_in_group d ag = Inr c \<and> get_group_limit e d ag = Inr l \<and> l \<le> c"
proof -
  have m: "map fst left = AGE_GROUPS"
    using remaining_of_sound [OF assms(1)] by simp
  have g: "get_remaining e d a = Inr v" if "(a, v) \<in> set left" for a v
    using remaining_of_sound [OF assms(1)] that by auto
  have "ag \<in> fst ` set left" using assms(3) m by (simp flip: set_map)
  then obtain v where v: "(ag, v) \<in> set left" by auto
  with assms(2) have "v = 0" by (auto simp: list_all_iff)
  with g [OF v] show ?thesis
    by (auto simp: get_remaining_def split: sum.splits)
qed

text \<open>
  C4.  What the handlers do when every age group has 0 remaining seats: after a
  two-token name, \<open>set_name_full\<close> answers with the apology and the main menu but
  leaves the session in the age-group step; on a confirmation, \<open>try_enroll\<close> returns
  \<open>False\<close> and \<open>confirm\<close> answers with the apology and the main menu but leaves the
  session in the confirmation step.  In neither case is the session cleared, as it
  is after a successful enrollment.
\<close>

theorem all_full_keeps_session:
  assumes "remaining_of e d AGE_GROUPS = Inr left" and "list_all (\<lambda>(ag, v). v = 0) left"
  shows "(\<forall>t. text_of m = Some t \<longrightarrow> 2 \<le> length (py_split t) \<longrightarrow>
            set_name_full e m s d =
              (s\<lparr>data := (data s)\<lparr>data_child_full :=
                     Some (hd (py_split t) @ [32] @ py_join [32] (tl (py_split t)))\<rparr>,
                 state := Some Age_group\<rparr>,
               d, [Answer All_full_later main_menu_kb])) \<and>
         (\<forall>child ag. data_child_full (data s) = Some child \<longrightarrow>
            data_age_group (data s) = Some ag \<longrightarrow> ag \<in> set AGE_GROUPS \<longrightarrow>
            confirm e w m s d = (s, d, [Answer All_full_contact_us main_menu_kb]))"
proof (intro conjI allI impI)
  fix t
  assume t: "text_of m = Some t" and two: "2 \<le> length (py_split t)"
  then have "py_split t \<noteq> []" by auto
  then have parts: "split_on 32 (py_join [32] (py_split t)) = py_split t"
    by (simp add: name_parts)
  show "set_name_full e m s d =
      (s\<lparr>data := (data s)\<lparr>data_child_full :=
             Some (hd (py_split t) @ [32] @ py_join [32] (tl (py_split t)))\<rparr>,
         state := Some Age_group\<rparr>,
       d, [Answer All_full_later main_menu_kb])"
    using t two assms by (simp add: set_name_full_def parts Let_def)
next
  fix child ag
  assume c: "data_child_full (data s) = Some child" and a: "data_age_group (data s) = Some ag"
    and g: "ag \<in> set AGE_GROUPS"
  from all_full_group [OF assms g]
  obtain cnt l where "count_in_group d ag = Inr cnt" "get_group_limit e d ag = Inr l" "l \<le> cnt"
    by blast
  then have "try_enroll e d child ag (data_phone (data s)) (from_user_id m) (from_username m)
      (utcnow_insert w) = Inr (False, d)"
    by (rule try_enroll_full)
  then show "confirm e w m s d = (s, d, [Answer All_full_contact_us main_menu_kb])"
    using c a assms by (simp add: confirm_def)
qed

theorem all_full_keeps_session_witness:
  "remaining_of sample_env full_db AGE_GROUPS = Inr [(GROUP_A, 0), (GROUP_B, 0)] \<and>
   set_name_full sample_env (text_msg (ascii ''Ivan Petrov'')) awaiting_name full_db =
     (awaiting_name\<lparr>data := (data awaiting_name)\<lparr>data_child_full :=
          Some (ascii ''Ivan Petrov'')\<rparr>, state := Some Age_group\<rparr>,
      full_db, [Answer All_full_later main_menu_kb]) \<and>
   confirm sample_env sample_io (text_msg CONFIRM_TEXT) awaiting_confirm full_db =
     (awaiting_confirm, full_db, [Answer All_full_contact_us main_menu_kb]) \<and>
   state awaiting_confirm = Some Confirm"
proof -
  have z: "list_all (\<lambda>(ag, v). v = 0) [(GROUP_A, 0::int), (GROUP_B, 0)]" by simp
  have t: "text_of (text_msg (ascii ''Ivan Petrov'')) = Some (ascii ''Ivan Petrov'')"
    by (simp add: text_of_def text_msg_def)
  have p: "py_split (ascii ''Ivan Petrov'') = [ascii ''Ivan'', ascii ''Petrov'']"
    by (simp add: py_split_def ascii_def isspace_def)
  have j: "ascii ''Ivan'' @ 32 # ascii ''Petrov'' = ascii ''Ivan Petrov''"
    by (simp add: ascii_def)
  have c: "data_child_full (data awaiting_confirm) = Some (ascii ''Ivan Petrov'')"
    "data_age_group (data awaiting_confirm) = Some GROUP_A" "GROUP_A \<in> set AGE_GROUPS"
    "state awaiting_confirm = Some Confirm"
    by (simp_all add: awaiting_confirm_def AGE_GROUPS_def GROUP_A_def)
  note n = all_full_keeps_session [OF full_remaining z,
      where m = "text_msg (ascii ''Ivan Petrov'')" and s = awaiting_name and w = sample_io,
      THEN conjunct1, rule_format, OF t]
  note k = all_full_keeps_session [OF full_remaining z,
      where m = "text_msg CONFIRM_TEXT" and s = awaiting_confirm and w = sample_io,
      THEN conjunct2, rule_format, OF c(1) c(2) c(3)]
  show ?thesis using n k c(4) full_remaining by (simp add: p j)
qed

text \<open>
  C9.  Notification is best-effort: when \<open>try_enroll\<close> has returned \<open>True\<close> and the
  send to the administrator raises, \<open>confirm\<close> logs a warning (nothing when no
  administrator is configured), leaves with no exception, still answers the user
  with the success message, clears the session, and the store is the one
  \<open>try_enroll\<close> committed; session, store and final answer are the same as when the
  send succeeds.
\<close>

theorem notification_best_effort:
  assumes "data_child_full (data s) = Some child" and "data_age_group (data s) = Some ag"
    and "try_enroll e d child ag (data_phone (data s)) (from_user_id m) (from_username m)
           (utcnow_insert w) = Inr (True, d')"
    and "send_message_raises w"
  shows "confirm e w m s d =
           (clear s, d',
            (if ADMIN_ID e = None \<or> ADMIN_ID e = Some 0 then [] else [Log_warning])
            @ [Answer Enrolled main_menu_kb]) \<and>
         state (clear s) = None \<and>
         fst (confirm e (w\<lparr>send_message_raises := False\<rparr>) m s d) = clear s \<and>
         fst (snd (confirm e (w\<lparr>send_message_raises := False\<rparr>) m s d)) = d' \<and>
         last (snd (snd (confirm e (w\<lparr>send_message_raises := False\<rparr>) m s d)))
           = Answer Enrolled main_menu_kb"
  using assms by (auto simp: confirm_def clear_def split: option.splits)

lemma sample_try_enroll:
  "try_enroll sample_env one_seat_db (ascii ''Ivan Petrov'') GROUP_A ph 42 None
     (ascii ''2024-01-01T00:00:00'') = Inr (True, enrolled_db ph)"
  by (simp add: try_enroll_def count_in_group_def get_group_limit_def next_rowid_def
      one_seat_db_def enrolled_db_def GROUP_A_def GROUP_B_def Let_def)

theorem notification_best_effort_witness:
  "send_message_raises sample_io \<and>
   confirm sample_env sample_io (text_msg CONFIRM_TEXT) awaiting_confirm one_seat_db =
     (clear awaiting_confirm, enrolled_db (Some (ascii ''+7 900 123-45-67'')),
      [Log_warning, Answer Enrolled main_menu_kb])"
proof -
  have c: "data_child_full (data awaiting_confirm) = Some (ascii ''Ivan Petrov'')"
    and a: "data_age_group (data awaiting_confirm) = Some GROUP_A"
    and r: "send_message_raises sample_io"
    by (simp_all add: awaiting_confirm_def sample_io_def)
  have t: "try_enroll sample_env one_seat_db (ascii ''Ivan Petrov'') GROUP_A
      (data_phone (data awaiting_confirm)) (from_user_id (text_msg CONFIRM_TEXT))
      (from_username (text_msg CONFIRM_TEXT)) (utcnow_insert sample_io) =
      Inr (True, enrolled_db (Some (ascii ''+7 900 123-45-67'')))"
    using sample_try_enroll [of "Some (ascii ''+7 900 123-45-67'')"]
    by (simp add: awaiting_confirm_def text_msg_def sample_io_def)
  have i: "ADMIN_ID sample_env = Some 1000" by (simp add: sample_env_def)
  show ?thesis
    using notification_best_effort [OF c a t r] r by (simp add: i)
qed

section \<open>Phones of persisted rows\<close>
























end
